theory Spec2Isabelle
  imports Main
begin

section \<open>Data model\<close>

text \<open>
  The program is a small HTTP server (\<^verbatim>\<open>main.go\<close>) with two handlers, \<^verbatim>\<open>slow\<close> and
  \<^verbatim>\<open>fail\<close>; a second file holds a sleep-only version of \<^verbatim>\<open>slow\<close>.  A handler's behaviour
  is what it does to its collaborators: the logger, the response writer, the time
  package.  The model records these calls, in order, as a list of events, together
  with the instant at which the handler returns.

  A \<^verbatim>\<open>time.Duration\<close> is a signed count of nanoseconds.  The handlers do no arithmetic
  on durations, so they are plain integers here.
\<close>

type_synonym Duration = int

definition Second :: Duration where
  "Second = 1000000000"

definition StatusBadRequest :: nat where
  "StatusBadRequest = 400"

definition StatusGatewayTimeout :: nat where
  "StatusGatewayTimeout = 504"

datatype level = InfoLevel | ErrorLevel

type_synonym field = "string \<times> string"

text \<open>
  The calls a handler makes on its collaborators.  \<open>Log\<close> carries the level,
  the message and the fields of the logger it was called on; \<open>Logf\<close> is the sugared
  \<^verbatim>\<open>Infof\<close> with its format string and its duration argument.
\<close>

datatype event =
    Log level string "field list"
  | Logf level string Duration "field list"
  | WriteHeader nat
  | Write string
  | Flush
  | NewTimer Duration
  | NewTicker Duration
  | Sleep Duration

text \<open>
  Instants are nanoseconds on a logical clock that starts when the handler arms its
  timer.  A \<^verbatim>\<open>context.Context\<close> is represented by the instant at which its \<^verbatim>\<open>Done\<close>
  channel is closed, \<open>None\<close> when it never is.
\<close>

type_synonym instant = nat

type_synonym done_at = "instant option"

record Server =
  ctx :: done_at
  logger :: "field list"

record Request =
  Method :: string
  URL :: string
  Vars :: "string \<rightharpoonup> string"
  Context :: done_at

text \<open>
  An \<^verbatim>\<open>http.ResponseWriter\<close>: whether it also implements \<^verbatim>\<open>http.Flusher\<close>, and the error
  (if any) that its \<open>n\<close>-th call of \<^verbatim>\<open>Write\<close> returns, counting from 0.
\<close>

record ResponseWriter =
  flusher :: bool
  writeErr :: "nat \<Rightarrow> string option"

text \<open>
  What the handlers take from the Go library and runtime: \<^verbatim>\<open>time.ParseDuration\<close> (its two
  results, the duration and the error), the text that \<^verbatim>\<open>%s\<close> prints for a \<^verbatim>\<open>time.Time\<close>,
  and the pseudo-random source from which the \<open>n\<close>-th \<^verbatim>\<open>select\<close> draws when several of its
  cases are ready.
\<close>

record runtime =
  ParseDuration :: "string \<Rightarrow> Duration \<times> string option"
  fmtTime :: "instant \<Rightarrow> string"
  rnd :: "nat \<Rightarrow> nat"

record outcome =
  events :: "event list"
  returned :: instant

section \<open>The handlers\<close>

subsection \<open>\<^verbatim>\<open>fail\<close>\<close>

definition fail :: "Server \<Rightarrow> ResponseWriter \<Rightarrow> Request \<Rightarrow> Server \<times> outcome" where
  "fail s rw req = (s, \<lparr>events = [WriteHeader StatusGatewayTimeout], returned = 0\<rparr>)"

subsection \<open>The wait loop of \<^verbatim>\<open>slow\<close>\<close>

text \<open>
  The loop of \<^verbatim>\<open>slow\<close> is a \<^verbatim>\<open>select\<close> over four channels, in the order of the source.
\<close>

datatype chan = ReqDone | SrvDone | TimerC | TickerC

text \<open>
  The ticker is created with \<^verbatim>\<open>time.Second\<close>: its \<open>n\<close>-th tick is due \<open>n\<close> seconds after
  the start.
\<close>

definition period :: instant where
  "period = nat Second"

definition earliest :: "done_at \<Rightarrow> instant \<Rightarrow> instant" where
  "earliest c t = (case c of None \<Rightarrow> t | Some x \<Rightarrow> min x t)"

definition closed_by :: "done_at \<Rightarrow> instant \<Rightarrow> bool" where
  "closed_by c w = (case c of None \<Rightarrow> False | Some x \<Rightarrow> x \<le> w)"

text \<open>
  One \<^verbatim>\<open>select\<close>, after \<open>k\<close> ticks have been received.  The timer is due at \<open>T\<close>, the next
  tick at \<open>(k + 1) * period\<close>; the handler's own steps take no time, so the \<^verbatim>\<open>select\<close> is
  reached at \<open>k * period\<close>.  It blocks until the first instant at which one of its cases
  can proceed (\<open>wake\<close>), and then takes one of the cases that can proceed at that instant,
  chosen by the random source, as the Go specification has it.
\<close>

definition wake :: "Server \<Rightarrow> Request \<Rightarrow> instant \<Rightarrow> nat \<Rightarrow> instant" where
  "wake s req T k =
     max (k * period)
       (earliest (Context req) (earliest (ctx s) (min T ((k + 1) * period))))"

definition can_proceed :: "Server \<Rightarrow> Request \<Rightarrow> instant \<Rightarrow> nat \<Rightarrow> chan \<Rightarrow> bool" where
  "can_proceed s req T k c =
     (case c of
        ReqDone \<Rightarrow> closed_by (Context req) (wake s req T k)
      | SrvDone \<Rightarrow> closed_by (ctx s) (wake s req T k)
      | TimerC \<Rightarrow> T \<le> wake s req T k
      | TickerC \<Rightarrow> (k + 1) * period \<le> wake s req T k)"

definition select :: "runtime \<Rightarrow> Server \<Rightarrow> Request \<Rightarrow> instant \<Rightarrow> nat \<Rightarrow> chan" where
  "select rt s req T k =
     (let ready = filter (can_proceed s req T k) [ReqDone, SrvDone, TimerC, TickerC]
      in ready ! (rnd rt k mod length ready))"

text \<open>
  The body of the case \<^verbatim>\<open>tick := <-ticker.C\<close>, for the \<open>k\<close>-th tick received (counting from
  0): its events, and whether the loop goes on (\<open>False\<close> is the \<^verbatim>\<open>return\<close> after a failed
  write).
\<close>

definition tick_line :: "runtime \<Rightarrow> instant \<Rightarrow> string" where
  "tick_line rt tick = ''tick: '' @ fmtTime rt tick @ [CHR 0x0A]"

definition on_tick ::
  "runtime \<Rightarrow> ResponseWriter \<Rightarrow> field list \<Rightarrow> nat \<Rightarrow> instant \<Rightarrow> event list \<times> bool" where
  "on_tick rt rw lg k tick =
     (case writeErr rw k of
        Some err \<Rightarrow>
          ([Log InfoLevel ''tick'' lg, Write (tick_line rt tick),
            Log ErrorLevel ''failed to write tick'' (lg @ [(''error'', err)])], False)
      | None \<Rightarrow>
          ([Log InfoLevel ''tick'' lg, Write (tick_line rt tick)] @
           (if flusher rw then [Log InfoLevel ''flush'' lg, Flush] else []), True))"

lemma select_can_proceed: "can_proceed s req T k (select rt s req T k)"
proof -
  let ?cs = "[ReqDone, SrvDone, TimerC, TickerC]"
  let ?ready = "filter (can_proceed s req T k) ?cs"
  have "\<exists>c \<in> set ?cs. can_proceed s req T k c"
    by (cases "Context req"; cases "ctx s")
      (auto simp: can_proceed_def wake_def earliest_def closed_by_def min_def max_def)
  then have "?ready \<noteq> []"
    unfolding filter_empty_conv by blast
  then have "?ready ! (rnd rt k mod length ?ready) \<in> set ?ready"
    by (intro nth_mem) simp
  then show ?thesis
    unfolding select_def Let_def by (metis (no_types, lifting) mem_Collect_eq set_filter)
qed

lemma select_tick_due:
  assumes "select rt s req T k = TickerC"
  shows "(k + 1) * period \<le> T"
proof -
  have "can_proceed s req T k TickerC"
    using select_can_proceed [of s req T k rt] assms by simp
  then show ?thesis
    by (cases "Context req"; cases "ctx s")
      (auto simp: can_proceed_def wake_def earliest_def min_def max_def split: if_splits)
qed

function wait_loop ::
  "runtime \<Rightarrow> Server \<Rightarrow> ResponseWriter \<Rightarrow> Request \<Rightarrow> field list \<Rightarrow> instant \<Rightarrow> nat \<Rightarrow>
   event list \<times> instant" where
  "wait_loop rt s rw req lg T k =
     (case select rt s req T k of
        ReqDone \<Rightarrow> ([], wake s req T k)
      | SrvDone \<Rightarrow> ([], wake s req T k)
      | TimerC \<Rightarrow> ([], wake s req T k)
      | TickerC \<Rightarrow>
          (case on_tick rt rw lg k ((k + 1) * period) of
             (evs, False) \<Rightarrow> (evs, wake s req T k)
           | (evs, True) \<Rightarrow>
               (case wait_loop rt s rw req lg T (k + 1) of
                  (rest, t) \<Rightarrow> (evs @ rest, t))))"
  by pat_completeness auto
termination
proof (relation "measure (\<lambda>(rt, s, rw, req, lg, T, k). T div period - k)")
  show "wf (measure (\<lambda>(rt, s, rw, req, lg, T, k). T div period - k))"
    by simp
next
  fix rt :: "runtime" and s :: "Server" and rw :: "ResponseWriter" and req :: "Request"
    and lg :: "field list" and T k :: nat
  assume "select rt s req T k = TickerC"
  then have due: "(k + 1) * period \<le> T"
    by (rule select_tick_due)
  have "0 < period"
    by (simp add: period_def Second_def)
  with due have "k + 1 \<le> T div period"
    by (simp add: less_eq_div_iff_mult_less_eq)
  then show "((rt, s, rw, req, lg, T, k + 1), (rt, s, rw, req, lg, T, k))
      \<in> measure (\<lambda>(rt, s, rw, req, lg, T, k). T div period - k)"
    by simp
qed

declare wait_loop.simps [simp del]

subsection \<open>\<^verbatim>\<open>slow\<close>, ticking version (\<^verbatim>\<open>main.go\<close>)\<close>

text \<open>
  \<^verbatim>\<open>time.NewTimer(d)\<close> and \<^verbatim>\<open>time.Sleep(d)\<close> with \<open>d \<le> 0\<close> are due at once.
\<close>

definition due :: "Duration \<Rightarrow> instant" where
  "due d = nat d"

text \<open>
  \<^verbatim>\<open>mux.Vars(req)["duration"]\<close>: reading a key that a Go map does not have gives the empty
  string.  There is no \<^verbatim>\<open>return\<close> after \<^verbatim>\<open>rw.WriteHeader(http.StatusBadRequest)\<close>: the
  handler goes on with the \<open>pause\<close> that \<^verbatim>\<open>time.ParseDuration\<close> returned beside its error.
  The deferred \<^verbatim>\<open>logger.Info("finishing request")\<close> runs at every \<^verbatim>\<open>return\<close> of the loop.
\<close>

definition slow :: "runtime \<Rightarrow> Server \<Rightarrow> ResponseWriter \<Rightarrow> Request \<Rightarrow> Server \<times> outcome" where
  "slow rt s rw req =
     (let lg = logger s @ [(''method'', Method req), (''url'', URL req)];
          duration = (case Vars req ''duration'' of None \<Rightarrow> [] | Some d \<Rightarrow> d);
          (ev1, duration) =
            (if duration = []
             then ([Log InfoLevel ''using default duration'' lg], ''10s'')
             else ([], duration));
          (pause, err) = ParseDuration rt duration;
          ev2 =
            (case err of
               Some e \<Rightarrow>
                 [Log ErrorLevel ''failed to parse duration'' (lg @ [(''error'', e)]),
                  WriteHeader StatusBadRequest]
             | None \<Rightarrow> []);
          ev3 =
            [Log InfoLevel ''starting request'' lg,
             Logf InfoLevel ''pausing for %s'' pause lg,
             NewTimer pause, NewTicker Second];
          (ev4, t) = wait_loop rt s rw req lg (due pause) 0
      in (s, \<lparr>events = ev1 @ ev2 @ ev3 @ ev4 @ [Log InfoLevel ''finishing request'' lg],
               returned = t\<rparr>))"

subsection \<open>\<^verbatim>\<open>slow\<close>, sleep-only version\<close>

text \<open>
  The second file has a \<^verbatim>\<open>Server\<close> with the logger alone and a \<^verbatim>\<open>slow\<close> that calls
  \<^verbatim>\<open>time.Sleep(pause)\<close>.  It reads no context, and writes nothing but the status of a
  failed parse.
\<close>

record SleepServer =
  sleep_logger :: "field list"

definition slow_sleep ::
  "runtime \<Rightarrow> SleepServer \<Rightarrow> ResponseWriter \<Rightarrow> Request \<Rightarrow> SleepServer \<times> outcome" where
  "slow_sleep rt s rw req =
     (let lg = sleep_logger s @ [(''method'', Method req), (''url'', URL req)];
          duration = (case Vars req ''duration'' of None \<Rightarrow> [] | Some d \<Rightarrow> d);
          (ev1, duration) =
            (if duration = []
             then ([Log InfoLevel ''using default duration'' lg], ''10s'')
             else ([], duration));
          (pause, err) = ParseDuration rt duration;
          ev2 =
            (case err of
               Some e \<Rightarrow>
                 [Log ErrorLevel ''failed to parse duration'' (lg @ [(''error'', e)]),
                  WriteHeader StatusBadRequest]
             | None \<Rightarrow> [])
      in (s, \<lparr>events = ev1 @ ev2 @
                 [Log InfoLevel ''starting request'' lg,
                  Logf InfoLevel ''pausing for %s'' pause lg,
                  Sleep pause,
                  Log InfoLevel ''finishing request'' lg],
               returned = due pause\<rparr>))"

subsection \<open>\<^verbatim>\<open>slow\<close> on a clock with latencies\<close>

text \<open>
  The loop above is the limit case in which arming the ticker and handling a tick take
  no time.  In \<^verbatim>\<open>main.go\<close> the timer is armed before the ticker (lines 96 and 97), and
  while a tick is handled (the two log lines, \<^verbatim>\<open>rw.Write\<close>, \<^verbatim>\<open>f.Flush\<close>) the handler is not
  in its \<^verbatim>\<open>select\<close>: the timer and the two \<^verbatim>\<open>Done\<close> channels are looked at only when it
  comes back to it.  The channel of the ticker holds one tick; a tick that comes due
  while the channel is full is dropped.

  A \<open>latency\<close> gives \<open>lag\<close>, the time from arming the timer to arming the ticker (the
  first \<^verbatim>\<open>select\<close> is reached then), and \<open>busy n\<close>, the time that the tick case takes
  for the \<open>n\<close>-th write.  Tick \<open>k\<close> (from 1) is due at \<open>lag + k * period\<close> on the clock
  that starts when the timer is armed.

  The loop is in its \<^verbatim>\<open>select\<close> at the instant \<open>now\<close>, after \<open>n\<close> writes; \<open>k\<close> is the first
  tick that came or comes due after the channel was last emptied, so the channel holds
  tick \<open>k\<close> when that is due by \<open>now\<close>.  A tick received at the instant \<open>w\<close> empties the
  channel: the next tick to enter it is the first one due after \<open>w\<close>.  With writes that
  take a tick interval or more and a \<^verbatim>\<open>select\<close> that takes the ticker every time, the loop
  does not end: the result is an option, \<open>None\<close> for a handler that never returns.
\<close>

record latency =
  lag :: nat
  busy :: "nat \<Rightarrow> nat"

definition tick_due :: "latency \<Rightarrow> nat \<Rightarrow> instant" where
  "tick_due lat k = lag lat + k * period"

definition wake_lat :: "latency \<Rightarrow> Server \<Rightarrow> Request \<Rightarrow> instant \<Rightarrow> instant \<Rightarrow> nat \<Rightarrow> instant" where
  "wake_lat lat s req T now k =
     max now (earliest (Context req) (earliest (ctx s) (min T (tick_due lat k))))"

definition can_proceed_lat ::
  "latency \<Rightarrow> Server \<Rightarrow> Request \<Rightarrow> instant \<Rightarrow> instant \<Rightarrow> nat \<Rightarrow> chan \<Rightarrow> bool" where
  "can_proceed_lat lat s req T now k c =
     (case c of
        ReqDone \<Rightarrow> closed_by (Context req) (wake_lat lat s req T now k)
      | SrvDone \<Rightarrow> closed_by (ctx s) (wake_lat lat s req T now k)
      | TimerC \<Rightarrow> T \<le> wake_lat lat s req T now k
      | TickerC \<Rightarrow> tick_due lat k \<le> wake_lat lat s req T now k)"

definition select_lat ::
  "latency \<Rightarrow> runtime \<Rightarrow> Server \<Rightarrow> Request \<Rightarrow> instant \<Rightarrow> instant \<Rightarrow> nat \<Rightarrow> nat \<Rightarrow> chan" where
  "select_lat lat rt s req T now k n =
     (let ready = filter (can_proceed_lat lat s req T now k) [ReqDone, SrvDone, TimerC, TickerC]
      in ready ! (rnd rt n mod length ready))"

partial_function (option) wait_loop_lat ::
  "latency \<Rightarrow> runtime \<Rightarrow> Server \<Rightarrow> ResponseWriter \<Rightarrow> Request \<Rightarrow> field list \<Rightarrow> instant \<Rightarrow>
   instant \<Rightarrow> nat \<Rightarrow> nat \<Rightarrow> (event list \<times> instant) option" where
  "wait_loop_lat lat rt s rw req lg T now k n =
     (case select_lat lat rt s req T now k n of
        ReqDone \<Rightarrow> Some ([], wake_lat lat s req T now k)
      | SrvDone \<Rightarrow> Some ([], wake_lat lat s req T now k)
      | TimerC \<Rightarrow> Some ([], wake_lat lat s req T now k)
      | TickerC \<Rightarrow>
          (case on_tick rt rw lg n (tick_due lat k) of
             (evs, go_on) \<Rightarrow>
               if go_on
               then Option.bind
                 (wait_loop_lat lat rt s rw req lg T
                    (wake_lat lat s req T now k + busy lat n)
                    ((wake_lat lat s req T now k - lag lat) div period + 1)
                    (n + 1))
                 (\<lambda>(rest, t). Some (evs @ rest, t))
               else Some (evs, wake_lat lat s req T now k + busy lat n)))"

definition slow_lat ::
  "latency \<Rightarrow> runtime \<Rightarrow> Server \<Rightarrow> ResponseWriter \<Rightarrow> Request \<Rightarrow> (Server \<times> outcome) option" where
  "slow_lat lat rt s rw req =
     (let lg = logger s @ [(''method'', Method req), (''url'', URL req)];
          duration = (case Vars req ''duration'' of None \<Rightarrow> [] | Some d \<Rightarrow> d);
          (ev1, duration) =
            (if duration = []
             then ([Log InfoLevel ''using default duration'' lg], ''10s'')
             else ([], duration));
          (pause, err) = ParseDuration rt duration;
          ev2 =
            (case err of
               Some e \<Rightarrow>
                 [Log ErrorLevel ''failed to parse duration'' (lg @ [(''error'', e)]),
                  WriteHeader StatusBadRequest]
             | None \<Rightarrow> []);
          ev3 =
            [Log InfoLevel ''starting request'' lg,
             Logf InfoLevel ''pausing for %s'' pause lg,
             NewTimer pause, NewTicker Second]
      in map_option
           (\<lambda>(ev4, t).
              (s, \<lparr>events = ev1 @ ev2 @ ev3 @ ev4 @ [Log InfoLevel ''finishing request'' lg],
                   returned = t\<rparr>))
           (wait_loop_lat lat rt s rw req lg (due pause) (lag lat) 1 0))"

subsection \<open>What a client reads\<close>

text \<open>The lines written to the response body, in order.\<close>

definition written :: "event list \<Rightarrow> string list" where
  "written evs = concat (map (\<lambda>e. case e of Write l \<Rightarrow> [l] | _ \<Rightarrow> []) evs)"

subsection \<open>Names used in the statements\<close>

text \<open>
  The string that \<^verbatim>\<open>slow\<close> hands to \<^verbatim>\<open>time.ParseDuration\<close>, and the fields of the logger it
  builds with \<^verbatim>\<open>s.logger.With\<close>.
\<close>

definition requested :: "Request \<Rightarrow> string" where
  "requested req =
     (case Vars req ''duration'' of None \<Rightarrow> ''10s'' | Some d \<Rightarrow> if d = [] then ''10s'' else d)"

definition fields_of :: "field list \<Rightarrow> Request \<Rightarrow> field list" where
  "fields_of lg0 req = lg0 @ [(''method'', Method req), (''url'', URL req)]"

text \<open>
  The first of the three events that end the wait: the request is cancelled, the server
  context is cancelled, the timer due at \<open>T\<close> fires.
\<close>

definition deadline :: "Server \<Rightarrow> Request \<Rightarrow> instant \<Rightarrow> instant" where
  "deadline s req T = earliest (Context req) (earliest (ctx s) T)"

text \<open>
  The events of \<^verbatim>\<open>slow\<close> before it arms the timer (or sleeps), given the two results \<open>p\<close>
  and \<open>err\<close> of \<^verbatim>\<open>time.ParseDuration\<close>; \<open>lg0\<close> are the fields of the server's logger.
\<close>

definition preamble :: "field list \<Rightarrow> Request \<Rightarrow> Duration \<Rightarrow> string option \<Rightarrow> event list" where
  "preamble lg0 req p err =
     (if Vars req ''duration'' = None \<or> Vars req ''duration'' = Some []
      then [Log InfoLevel ''using default duration'' (fields_of lg0 req)] else []) @
     (case err of
        Some e \<Rightarrow>
          [Log ErrorLevel ''failed to parse duration'' (fields_of lg0 req @ [(''error'', e)]),
           WriteHeader StatusBadRequest]
      | None \<Rightarrow> []) @
     [Log InfoLevel ''starting request'' (fields_of lg0 req),
      Logf InfoLevel ''pausing for %s'' p (fields_of lg0 req)]"

text \<open>The events of the tick case for the \<open>i\<close>-th tick, which is due at \<open>(i + 1) * period\<close>.\<close>

definition tick_events :: "runtime \<Rightarrow> ResponseWriter \<Rightarrow> field list \<Rightarrow> nat \<Rightarrow> event list" where
  "tick_events rt rw lg i = fst (on_tick rt rw lg i ((i + 1) * period))"

subsection \<open>Sample inputs\<close>

text \<open>
  A runtime whose \<^verbatim>\<open>ParseDuration\<close> gives, for the four strings below, the durations
  that Go's gives, and rejects every other string with a zero duration and an error.  Its
  \<^verbatim>\<open>select\<close> takes the first ready case in the order of the source; that of
  \<open>sample_rt_last\<close> takes the second one when there are two.
\<close>

definition sample_parse :: "string \<Rightarrow> Duration \<times> string option" where
  "sample_parse d =
     (if d = ''10s'' then (10000000000, None)
      else if d = ''1s'' then (1000000000, None)
      else if d = ''2500ms'' then (2500000000, None)
      else if d = ''-5s'' then (- 5000000000, None)
      else (0, Some (''time: invalid duration '' @ d)))"

definition sample_rt :: runtime where
  "sample_rt =
     \<lparr>ParseDuration = sample_parse,
      fmtTime = (\<lambda>t. if t < 2000000000 then ''T1'' else ''T2''),
      rnd = (\<lambda>n. 0)\<rparr>"

definition sample_rt_last :: runtime where
  "sample_rt_last = sample_rt\<lparr>rnd := (\<lambda>n. 1)\<rparr>"

definition sample_srv :: Server where
  "sample_srv = \<lparr>ctx = None, logger = []\<rparr>"

definition sample_sleep_srv :: SleepServer where
  "sample_sleep_srv = \<lparr>sleep_logger = []\<rparr>"

definition sample_rw :: ResponseWriter where
  "sample_rw = \<lparr>flusher = True, writeErr = (\<lambda>n. None)\<rparr>"

definition sample_req :: "string \<Rightarrow> Request" where
  "sample_req d =
     \<lparr>Method = ''GET'', URL = ''/slow/'' @ d, Vars = [''duration'' \<mapsto> d], Context = None\<rparr>"

text \<open>
  Latencies: a ticker armed 100 ns after the timer, with a tick case that takes 0.2 s, or
  3 s; and no latency at all.
\<close>

definition sample_lat :: latency where
  "sample_lat = \<lparr>lag = 100, busy = (\<lambda>n. 200000000)\<rparr>"

definition sample_lat_slow :: latency where
  "sample_lat_slow = \<lparr>lag = 100, busy = (\<lambda>n. 3000000000)\<rparr>"

definition no_latency :: latency where
  "no_latency = \<lparr>lag = 0, busy = (\<lambda>n. 0)\<rparr>"

text \<open>
  A runtime for a few more durations, whose \<^verbatim>\<open>select\<close> takes the ready case numbered \<open>r\<close>
  (modulo their number), and a latency whose first tick case takes \<open>b\<close> and the later
  ones a microsecond.
\<close>

definition sample_rt_pick :: "nat \<Rightarrow> runtime" where
  "sample_rt_pick r =
     \<lparr>ParseDuration =
        (\<lambda>d. if d = ''2s'' then (2000000000, None)
             else if d = ''3s'' then (3000000000, None)
             else if d = ''3.5s'' then (3500000000, None)
             else if d = ''1.000000001s'' then (1000000001, None)
             else (0, Some (''time: invalid duration '' @ d))),
      fmtTime = (\<lambda>t. ''T''),
      rnd = (\<lambda>n. r)\<rparr>"

definition sample_lat_first :: "nat \<Rightarrow> latency" where
  "sample_lat_first b = \<lparr>lag = 100, busy = (\<lambda>n. if n = 0 then b else 1000)\<rparr>"

section \<open>The wait loop\<close>

lemma period_pos: "0 < period"
  by (simp add: period_def Second_def)

lemma wake_deadline:
  "wake s req T k = max (k * period) (min (deadline s req T) ((k + 1) * period))"
  by (cases "Context req"; cases "ctx s")
    (auto simp: wake_def deadline_def earliest_def min_def max_def)

lemma deadline_le: "deadline s req T \<le> T"
  by (cases "Context req"; cases "ctx s") (auto simp: deadline_def earliest_def)

lemma select_tick_deadline:
  assumes "select rt s req T k = TickerC"
  shows "(k + 1) * period \<le> deadline s req T"
proof -
  have "can_proceed s req T k TickerC"
    using select_can_proceed [of s req T k rt] assms by simp
  then show ?thesis
    using period_pos by (auto simp: can_proceed_def wake_deadline min_def max_def split: if_splits)
qed

lemma select_return_deadline:
  assumes "select rt s req T k \<noteq> TickerC"
  shows "deadline s req T \<le> wake s req T k"
proof -
  have "can_proceed s req T k (select rt s req T k)"
    by (rule select_can_proceed)
  with assms show ?thesis
    by (cases "select rt s req T k"; cases "Context req"; cases "ctx s")
      (auto simp: can_proceed_def closed_by_def deadline_def earliest_def min_def)
qed

lemma select_return_wake:
  assumes "select rt s req T k \<noteq> TickerC" and "k * period \<le> deadline s req T"
  shows "wake s req T k = deadline s req T"
  using select_return_deadline [OF assms(1)] assms(2)
  by (auto simp: wake_deadline min_def max_def split: if_splits)

lemma select_tick_early:
  assumes "(k + 1) * period < deadline s req T"
  shows "select rt s req T k = TickerC"
proof (rule ccontr)
  assume "select rt s req T k \<noteq> TickerC"
  then have "deadline s req T \<le> wake s req T k"
    by (rule select_return_deadline)
  with assms show False
    by (auto simp: wake_deadline min_def max_def split: if_splits)
qed

lemma wake_tick:
  assumes "(k + 1) * period \<le> deadline s req T"
  shows "wake s req T k = (k + 1) * period"
  using assms by (simp add: wake_deadline min_def max_def)

lemma on_tick_goes_on: "snd (on_tick rt rw lg i t) = (writeErr rw i = None)"
  by (simp add: on_tick_def split: option.split)

lemma on_tick_eq:
  "on_tick rt rw lg i ((i + 1) * period) = (tick_events rt rw lg i, writeErr rw i = None)"
  using on_tick_goes_on [of rt rw lg i "(i + 1) * period"]
  by (simp add: tick_events_def prod_eq_iff)

text \<open>The three ways through one turn of the loop.\<close>

lemma wait_loop_return:
  assumes "select rt s req T k \<noteq> TickerC"
  shows "wait_loop rt s rw req lg T k = ([], wake s req T k)"
  using assms by (subst wait_loop.simps) (simp split: chan.split)

lemma wait_loop_failed:
  assumes "select rt s req T k = TickerC" and "writeErr rw k \<noteq> None"
  shows "wait_loop rt s rw req lg T k = (tick_events rt rw lg k, wake s req T k)"
  using assms by (subst wait_loop.simps, subst on_tick_eq) auto

lemma wait_loop_tick:
  assumes "select rt s req T k = TickerC" and "writeErr rw k = None"
  shows "wait_loop rt s rw req lg T k =
    (tick_events rt rw lg k @ fst (wait_loop rt s rw req lg T (k + 1)),
     snd (wait_loop rt s rw req lg T (k + 1)))"
  using assms by (subst wait_loop.simps, subst on_tick_eq) (simp split: prod.split)

text \<open>
  The loop started after \<open>k\<close> ticks receives some number \<open>n\<close> of further ticks.  Only
  the last of them can have a failed write, and then the loop returns at that tick;
  otherwise it returns at the deadline, which is no later than the tick after the last
  one received.
\<close>

lemma wait_loop_shape:
  assumes "k * period \<le> deadline s req T"
  shows "\<exists>n. fst (wait_loop rt s rw req lg T k) = concat (map (tick_events rt rw lg) [k..<k + n])
       \<and> (k + n) * period \<le> deadline s req T
       \<and> (\<forall>i. k \<le> i \<and> i + 1 < k + n \<longrightarrow> writeErr rw i = None)
       \<and> (if 0 < n \<and> writeErr rw (k + n - 1) \<noteq> None
          then snd (wait_loop rt s rw req lg T k) = (k + n) * period
          else snd (wait_loop rt s rw req lg T k) = deadline s req T
             \<and> deadline s req T \<le> (k + n + 1) * period)"
  using assms
proof (induction rt s rw req lg T k rule: wait_loop.induct)
  case (1 rt s rw req lg T k)
  show ?case
  proof (cases "select rt s req T k = TickerC")
    case False
    have "deadline s req T \<le> (k + 1) * period"
      using False select_tick_early [of k s req T rt] by force
    with False "1.prems" select_return_wake [OF False "1.prems"] show ?thesis
      by (intro exI [of _ 0]) (auto simp: wait_loop_return)
  next
    case tick: True
    then have nxt: "(k + 1) * period \<le> deadline s req T"
      by (rule select_tick_deadline)
    show ?thesis
    proof (cases "writeErr rw k")
      case (Some e)
      with tick nxt show ?thesis
        by (intro exI [of _ 1]) (auto simp: wait_loop_failed wake_tick)
    next
      case None
      obtain evs where ot: "on_tick rt rw lg k ((k + 1) * period) = (evs, True)"
        using on_tick_goes_on [of rt rw lg k "(k + 1) * period"] None
        by (cases "on_tick rt rw lg k ((k + 1) * period)") auto
      from "1.IH" [OF tick ot [symmetric] refl nxt]
      obtain n where n:
        "fst (wait_loop rt s rw req lg T (k + 1)) =
           concat (map (tick_events rt rw lg) [k + 1..<k + 1 + n])"
        "(k + 1 + n) * period \<le> deadline s req T"
        "\<forall>i. k + 1 \<le> i \<and> i + 1 < k + 1 + n \<longrightarrow> writeErr rw i = None"
        "if 0 < n \<and> writeErr rw (k + 1 + n - 1) \<noteq> None
          then snd (wait_loop rt s rw req lg T (k + 1)) = (k + 1 + n) * period
          else snd (wait_loop rt s rw req lg T (k + 1)) = deadline s req T
             \<and> deadline s req T \<le> (k + 1 + n + 1) * period"
        by blast
      have upt: "[k..<k + (n + 1)] = k # [k + 1..<k + 1 + n]"
        by (simp add: upt_rec)
      have wr: "\<forall>i. k \<le> i \<and> i + 1 < k + (n + 1) \<longrightarrow> writeErr rw i = None"
        using n(3) None by (metis Suc_eq_plus1 add.assoc add.commute le_antisym not_less_eq_eq)
      show ?thesis
      proof (intro exI [of _ "n + 1"] conjI)
        show "fst (wait_loop rt s rw req lg T k) =
            concat (map (tick_events rt rw lg) [k..<k + (n + 1)])"
          unfolding upt using n(1) by (simp add: wait_loop_tick [OF tick None])
        show "(k + (n + 1)) * period \<le> deadline s req T"
          using n(2) by (simp add: ac_simps)
        show "\<forall>i. k \<le> i \<and> i + 1 < k + (n + 1) \<longrightarrow> writeErr rw i = None"
          by (rule wr)
        show "if 0 < n + 1 \<and> writeErr rw (k + (n + 1) - 1) \<noteq> None
          then snd (wait_loop rt s rw req lg T k) = (k + (n + 1)) * period
          else snd (wait_loop rt s rw req lg T k) = deadline s req T
             \<and> deadline s req T \<le> (k + (n + 1) + 1) * period"
        proof (cases "n = 0")
          case True
          with n(4) None show ?thesis
            by (simp add: wait_loop_tick [OF tick None])
        next
          case False
          with n(4) show ?thesis
            by (auto simp: wait_loop_tick [OF tick None] algebra_simps split: if_splits)
        qed
      qed
    qed
  qed
qed

section \<open>The handlers, unfolded\<close>

lemma slow_unfold:
  assumes "ParseDuration rt (requested req) = (p, err)"
  shows "slow rt s rw req =
    (s, \<lparr>events =
           preamble (logger s) req p err @ [NewTimer p, NewTicker Second] @
           fst (wait_loop rt s rw req (fields_of (logger s) req) (due p) 0) @
           [Log InfoLevel ''finishing request'' (fields_of (logger s) req)],
         returned = snd (wait_loop rt s rw req (fields_of (logger s) req) (due p) 0)\<rparr>)"
  using assms
  by (cases "Vars req ''duration''"; cases "the (Vars req ''duration'') = []")
    (auto simp: slow_def requested_def fields_of_def preamble_def Let_def
      split: prod.split option.split)

lemma slow_sleep_unfold:
  assumes "ParseDuration rt (requested req) = (p, err)"
  shows "slow_sleep rt s rw req =
    (s, \<lparr>events =
           preamble (sleep_logger s) req p err @
           [Sleep p, Log InfoLevel ''finishing request'' (fields_of (sleep_logger s) req)],
         returned = due p\<rparr>)"
  using assms
  by (cases "Vars req ''duration''"; cases "the (Vars req ''duration'') = []")
    (auto simp: slow_sleep_def requested_def fields_of_def preamble_def Let_def
      split: prod.split option.split)

lemma written_append [simp]: "written (a @ b) = written a @ written b"
  by (simp add: written_def)

lemma written_Nil [simp]: "written [] = []"
  by (simp add: written_def)

lemma written_Cons:
  "written (e # es) = (case e of Write l \<Rightarrow> [l] | _ \<Rightarrow> []) @ written es"
  by (simp add: written_def)

lemma written_preamble [simp]: "written (preamble lg0 req p err) = []"
  by (simp add: preamble_def written_Cons split: option.split)

lemma written_tick_events [simp]:
  "written (tick_events rt rw lg i) = [tick_line rt ((i + 1) * period)]"
  by (simp add: tick_events_def on_tick_def written_Cons split: option.split)

lemma written_ticks:
  "written (concat (map (tick_events rt rw lg) xs)) = map (\<lambda>i. tick_line rt ((i + 1) * period)) xs"
  by (induction xs) simp_all

text \<open>
  The events of \<^verbatim>\<open>slow\<close>: the preamble, the timer and the ticker, the events of some number
  \<open>n\<close> of ticks, the deferred log line.
\<close>

lemma slow_ticks:
  assumes "ParseDuration rt (requested req) = (p, err)"
  shows "\<exists>n. events (snd (slow rt s rw req)) =
          preamble (logger s) req p err @ [NewTimer p, NewTicker Second] @
          concat (map (tick_events rt rw (fields_of (logger s) req)) [0..<n]) @
          [Log InfoLevel ''finishing request'' (fields_of (logger s) req)]
       \<and> n * period \<le> deadline s req (due p)
       \<and> (\<forall>i. i + 1 < n \<longrightarrow> writeErr rw i = None)
       \<and> (if 0 < n \<and> writeErr rw (n - 1) \<noteq> None
          then returned (snd (slow rt s rw req)) = n * period
          else returned (snd (slow rt s rw req)) = deadline s req (due p)
             \<and> deadline s req (due p) \<le> (n + 1) * period)"
  unfolding slow_unfold [OF assms] snd_conv outcome.simps same_append_eq append_same_eq
  using wait_loop_shape [of 0 s req "due p" rt rw "fields_of (logger s) req"]
  by (simp only: add_0 mult_zero_left le0 simp_thms)

lemmas sample_defs =
  sample_rt_def sample_rt_last_def sample_srv_def sample_sleep_srv_def sample_rw_def
  sample_req_def sample_parse_def

lemmas eval_defs =
  slow_def slow_sleep_def Let_def due_def wait_loop.simps select_def can_proceed_def wake_def
  period_def Second_def earliest_def closed_by_def on_tick_def tick_line_def written_def
  StatusBadRequest_def requested_def

section \<open>Further facts about the loop\<close>

lemma tick_events_eq:
  "tick_events rt rw lg i =
     [Log InfoLevel ''tick'' lg, Write (''tick: '' @ fmtTime rt ((i + 1) * period) @ [CHR 0x0A])] @
     (case writeErr rw i of
        Some e \<Rightarrow> [Log ErrorLevel ''failed to write tick'' (lg @ [(''error'', e)])]
      | None \<Rightarrow> if flusher rw then [Log InfoLevel ''flush'' lg, Flush] else [])"
  by (simp add: tick_events_def on_tick_def tick_line_def split: option.split)

lemma wait_loop_zero: "wait_loop rt s rw req lg 0 0 = ([], 0)"
proof -
  have D: "deadline s req 0 = 0"
    using deadline_le [of s req 0] by simp
  then have "select rt s req 0 0 \<noteq> TickerC"
    using select_tick_deadline [of rt s req 0 0] period_pos by auto
  then show ?thesis
    by (simp add: wait_loop_return wake_deadline D)
qed

text \<open>The loop looks at the request only through its context.\<close>

lemma select_req:
  assumes "Context req' = Context req"
  shows "select rt s req' T k = select rt s req T k" and "wake s req' T k = wake s req T k"
proof -
  show w: "wake s req' T k = wake s req T k"
    by (simp only: wake_def assms)
  have "can_proceed s req' T k = can_proceed s req T k"
    by (rule ext) (simp only: can_proceed_def w assms)
  then show "select rt s req' T k = select rt s req T k"
    by (simp only: select_def)
qed

lemma wait_loop_req:
  assumes "Context req' = Context req"
  shows "wait_loop rt s rw req' lg T k = wait_loop rt s rw req lg T k"
  using assms
proof (induction rt s rw req lg T k rule: wait_loop.induct)
  case (1 rt s rw req lg T k)
  note sel = select_req [OF "1.prems"]
  show ?case
  proof (cases "select rt s req T k = TickerC")
    case False
    then show ?thesis
      by (simp add: wait_loop_return sel)
  next
    case tick: True
    show ?thesis
    proof (cases "writeErr rw k")
      case (Some e)
      with tick show ?thesis
        by (simp add: wait_loop_failed sel)
    next
      case None
      have "on_tick rt rw lg k ((k + 1) * period) = (tick_events rt rw lg k, True)"
        using None by (subst on_tick_eq) simp
      from "1.IH" [OF tick this [symmetric] refl "1.prems"] tick None show ?thesis
        by (simp add: wait_loop_tick sel)
    qed
  qed
qed

section \<open>The loop on the clock with latencies\<close>

lemma wake_lat_deadline:
  "wake_lat lat s req T now k = max now (min (deadline s req T) (tick_due lat k))"
  by (cases "Context req"; cases "ctx s")
    (auto simp: wake_lat_def deadline_def earliest_def min_def max_def)

lemma select_lat_can_proceed:
  "can_proceed_lat lat s req T now k (select_lat lat rt s req T now k n)"
proof -
  let ?cs = "[ReqDone, SrvDone, TimerC, TickerC]"
  let ?ready = "filter (can_proceed_lat lat s req T now k) ?cs"
  have "\<exists>c \<in> set ?cs. can_proceed_lat lat s req T now k c"
    by (cases "Context req"; cases "ctx s")
      (auto simp: can_proceed_lat_def wake_lat_def earliest_def closed_by_def min_def max_def)
  then have "?ready \<noteq> []"
    unfolding filter_empty_conv by blast
  then have "?ready ! (rnd rt n mod length ?ready) \<in> set ?ready"
    by (intro nth_mem) simp
  then show ?thesis
    unfolding select_lat_def Let_def by (metis (no_types, lifting) mem_Collect_eq set_filter)
qed

lemma select_lat_tick:
  assumes "select_lat lat rt s req T now k n = TickerC" and "now < tick_due lat k"
  shows "tick_due lat k \<le> deadline s req T" and "wake_lat lat s req T now k = tick_due lat k"
proof -
  have "can_proceed_lat lat s req T now k TickerC"
    using select_lat_can_proceed [of lat s req T now k rt n] assms(1) by simp
  then have "tick_due lat k \<le> max now (min (deadline s req T) (tick_due lat k))"
    by (simp add: can_proceed_lat_def wake_lat_deadline)
  with assms(2) show "tick_due lat k \<le> deadline s req T"
    by (auto simp: min_def max_def split: if_splits)
  with assms(2) show "wake_lat lat s req T now k = tick_due lat k"
    by (simp add: wake_lat_deadline min_def max_def)
qed

lemma select_lat_return:
  assumes "select_lat lat rt s req T now k n \<noteq> TickerC"
  shows "deadline s req T \<le> wake_lat lat s req T now k"
proof -
  have "can_proceed_lat lat s req T now k (select_lat lat rt s req T now k n)"
    by (rule select_lat_can_proceed)
  with assms show ?thesis
    by (cases "select_lat lat rt s req T now k n"; cases "Context req"; cases "ctx s")
      (auto simp: can_proceed_lat_def closed_by_def deadline_def earliest_def min_def)
qed

lemma select_lat_return_wake:
  assumes "select_lat lat rt s req T now k n \<noteq> TickerC"
  shows "wake_lat lat s req T now k = max now (deadline s req T)"
    and "now < tick_due lat k \<Longrightarrow> deadline s req T \<le> tick_due lat k"
  using select_lat_return [OF assms]
  by (auto simp: wake_lat_deadline min_def max_def split: if_splits)

lemma wait_loop_lat_return:
  assumes "select_lat lat rt s req T now k n \<noteq> TickerC"
  shows "wait_loop_lat lat rt s rw req lg T now k n = Some ([], wake_lat lat s req T now k)"
  using assms by (subst wait_loop_lat.simps) (simp split: chan.split)

lemma wait_loop_lat_failed:
  assumes "select_lat lat rt s req T now k n = TickerC" and "writeErr rw n \<noteq> None"
  shows "wait_loop_lat lat rt s rw req lg T now k n =
    Some (fst (on_tick rt rw lg n (tick_due lat k)), wake_lat lat s req T now k + busy lat n)"
proof -
  have ot: "on_tick rt rw lg n (tick_due lat k) =
      (fst (on_tick rt rw lg n (tick_due lat k)), False)"
    using assms(2) on_tick_goes_on [of rt rw lg n "tick_due lat k"] by (simp add: prod_eq_iff)
  show ?thesis
    by (subst wait_loop_lat.simps, subst ot) (simp add: assms(1))
qed

lemma wait_loop_lat_tick:
  assumes "select_lat lat rt s req T now k n = TickerC" and "writeErr rw n = None"
  shows "wait_loop_lat lat rt s rw req lg T now k n =
    map_option (\<lambda>(rest, t). (fst (on_tick rt rw lg n (tick_due lat k)) @ rest, t))
      (wait_loop_lat lat rt s rw req lg T
         (wake_lat lat s req T now k + busy lat n)
         ((wake_lat lat s req T now k - lag lat) div period + 1)
         (n + 1))"
proof -
  have "snd (on_tick rt rw lg n (tick_due lat k))"
    using assms(2) by (simp add: on_tick_goes_on)
  with assms(1) show ?thesis
    by (subst wait_loop_lat.simps)
      (auto simp: map_option_case split: prod.split option.split bind_split)
qed

lemma written_on_tick: "written (fst (on_tick rt rw lg i t)) = [tick_line rt t]"
  by (simp add: on_tick_def written_Cons split: option.split)

lemma tick_due_Suc [simp]: "tick_due lat (Suc k) = tick_due lat k + period"
  by (simp add: tick_due_def)

lemma next_tick: "(tick_due lat k - lag lat) div period = k"
  using period_pos by (simp add: tick_due_def)

text \<open>
  When every tick case takes less than a tick interval, each \<^verbatim>\<open>select\<close> is reached before
  the next tick is due, and the loop ends.  The ticks received were due by the deadline;
  when no write fails the next tick is not due before the deadline, and the loop does
  not return before it; and it returns less than a tick interval after it.
\<close>

lemma wait_loop_lat_fast:
  assumes fast: "\<forall>i. busy lat i < period" and inv: "now < tick_due lat k"
  shows "\<exists>evs t. wait_loop_lat lat rt s rw req lg T now k n = Some (evs, t)
     \<and> (0 < length (written evs) \<longrightarrow>
          tick_due lat (k + length (written evs) - 1) \<le> deadline s req T)
     \<and> ((\<forall>i. writeErr rw i = None) \<longrightarrow>
          deadline s req T \<le> tick_due lat (k + length (written evs))
        \<and> max now (deadline s req T) \<le> t)
     \<and> t < max (now + 1) (deadline s req T + period)"
  using inv
proof (induction "Suc (deadline s req T) - tick_due lat k" arbitrary: now k n rule: less_induct)
  case less
  let ?E = "deadline s req T"
  show ?case
  proof (cases "select_lat lat rt s req T now k n = TickerC")
    case False
    from select_lat_return_wake [OF False] less.prems period_pos show ?thesis
      by (auto simp: wait_loop_lat_return [OF False] max_def)
  next
    case tick: True
    note t = select_lat_tick [OF tick less.prems]
    show ?thesis
    proof (cases "writeErr rw n")
      case (Some e)
      then have "writeErr rw n \<noteq> None" by simp
      from wait_loop_lat_failed [OF tick this] t fast [rule_format, of n] Some show ?thesis
        by (auto simp: written_on_tick)
    next
      case None
      let ?now = "tick_due lat k + busy lat n"
      have inv': "?now < tick_due lat (k + 1)"
        using fast [rule_format, of n] by simp
      have less': "Suc ?E - tick_due lat (k + 1) < Suc ?E - tick_due lat k"
        using t(1) period_pos by simp
      from less.hyps [OF less' inv', of "n + 1"] obtain evs t' where
        r: "wait_loop_lat lat rt s rw req lg T ?now (k + 1) (n + 1) = Some (evs, t')"
        and c: "0 < length (written evs) \<longrightarrow>
          tick_due lat (k + 1 + length (written evs) - 1) \<le> ?E"
        and d: "(\<forall>i. writeErr rw i = None) \<longrightarrow>
          ?E \<le> tick_due lat (k + 1 + length (written evs)) \<and> max ?now ?E \<le> t'"
        and e: "t' < max (?now + 1) (?E + period)"
        by (elim exE conjE)
      have res: "wait_loop_lat lat rt s rw req lg T now k n =
          Some (fst (on_tick rt rw lg n (tick_due lat k)) @ evs, t')"
        using r by (simp add: wait_loop_lat_tick [OF tick None] t(2) next_tick)
      have len: "length (written (fst (on_tick rt rw lg n (tick_due lat k)) @ evs)) =
          length (written evs) + 1"
        by (simp add: written_on_tick)
      have c': "tick_due lat (k + (length (written evs) + 1) - 1) \<le> ?E"
        using c t(1) by (cases "length (written evs) = 0") (simp_all add: ac_simps)
      have d': "(\<forall>i. writeErr rw i = None) \<longrightarrow>
          ?E \<le> tick_due lat (k + (length (written evs) + 1)) \<and> max now ?E \<le> t'"
        using d less.prems by (auto simp: ac_simps)
      have e': "t' < max (now + 1) (?E + period)"
        using e inv' t(1) by (auto simp: max_def split: if_splits)
      show ?thesis
        using res c' d' e'
        by (intro exI [of _ "fst (on_tick rt rw lg n (tick_due lat k)) @ evs"] exI [of _ t'])
          (simp add: written_on_tick)
    qed
  qed
qed

lemma slow_lat_unfold:
  assumes "ParseDuration rt (requested req) = (p, err)"
  shows "slow_lat lat rt s rw req =
    map_option
      (\<lambda>(ev4, t).
         (s, \<lparr>events =
                preamble (logger s) req p err @ [NewTimer p, NewTicker Second] @ ev4 @
                [Log InfoLevel ''finishing request'' (fields_of (logger s) req)],
              returned = t\<rparr>))
      (wait_loop_lat lat rt s rw req (fields_of (logger s) req) (due p) (lag lat) 1 0)"
  using assms
  by (cases "Vars req ''duration''"; cases "the (Vars req ''duration'') = []")
    (auto simp: slow_lat_def requested_def fields_of_def preamble_def Let_def
      split: prod.split option.split intro!: map_option_cong)

lemma slow_lat_fast:
  assumes "ParseDuration rt (requested req) = (p, err)"
    and "\<forall>i. busy lat i < period"
  shows "\<exists>out. slow_lat lat rt s rw req = Some (s, out)
     \<and> (0 < length (written (events out)) \<longrightarrow>
          tick_due lat (length (written (events out))) \<le> deadline s req (due p))
     \<and> ((\<forall>i. writeErr rw i = None) \<longrightarrow>
          deadline s req (due p) \<le> tick_due lat (length (written (events out)) + 1)
        \<and> max (lag lat) (deadline s req (due p)) \<le> returned out)
     \<and> returned out < max (lag lat + 1) (deadline s req (due p) + period)"
proof -
  have "lag lat < tick_due lat 1"
    using period_pos by (simp add: tick_due_def)
  from wait_loop_lat_fast [OF assms(2) this, of rt s rw req "fields_of (logger s) req" "due p" 0]
  obtain evs t where
    r: "wait_loop_lat lat rt s rw req (fields_of (logger s) req) (due p) (lag lat) 1 0 =
        Some (evs, t)"
    and c: "0 < length (written evs) \<longrightarrow>
        tick_due lat (1 + length (written evs) - 1) \<le> deadline s req (due p)"
    and d: "(\<forall>i. writeErr rw i = None) \<longrightarrow>
        deadline s req (due p) \<le> tick_due lat (1 + length (written evs))
      \<and> max (lag lat) (deadline s req (due p)) \<le> t"
    and e: "t < max (lag lat + 1) (deadline s req (due p) + period)"
    by (elim exE conjE)
  let ?out = "\<lparr>events =
      preamble (logger s) req p err @ [NewTimer p, NewTicker Second] @ evs @
      [Log InfoLevel ''finishing request'' (fields_of (logger s) req)],
    returned = t\<rparr>"
  have w: "written (events ?out) = written evs"
    by (simp add: written_Cons)
  have "slow_lat lat rt s rw req = Some (s, ?out)"
    using r by (simp add: slow_lat_unfold [OF assms(1)])
  moreover have "0 < length (written (events ?out)) \<longrightarrow>
      tick_due lat (length (written (events ?out))) \<le> deadline s req (due p)"
    unfolding w using c by simp
  moreover have "(\<forall>i. writeErr rw i = None) \<longrightarrow>
      deadline s req (due p) \<le> tick_due lat (length (written (events ?out)) + 1)
    \<and> max (lag lat) (deadline s req (due p)) \<le> returned ?out"
    unfolding w using d by (simp add: ac_simps)
  moreover have "returned ?out < max (lag lat + 1) (deadline s req (due p) + period)"
    using e by simp
  ultimately show ?thesis
    by (intro exI [of _ ?out] conjI)
qed

lemma ticks_between:
  fixes L T m P :: nat
  assumes L: "L < P" and lo: "0 < m \<longrightarrow> L + m * P \<le> T"
    and hi: "T \<le> L + (m + 1) * P" and big: "P \<le> T"
  shows "(L < T mod P \<longrightarrow> m = T div P)
    \<and> (T mod P < L \<longrightarrow> m + 1 = T div P)
    \<and> (T mod P = L \<longrightarrow> m = T div P \<or> m + 1 = T div P)"
proof -
  define q f where "q = T div P" and "f = T mod P"
  have P: "0 < P"
    using L by simp
  have T: "T = q * P + f" and f: "f < P"
    using P by (simp_all add: q_def f_def)
  have q1: "1 \<le> q"
  proof (rule ccontr)
    assume "\<not> 1 \<le> q"
    then have "q = 0" by simp
    with T f big show False by simp
  qed
  have mq: "m \<le> q"
  proof (rule ccontr)
    assume "\<not> m \<le> q"
    then have "q + 1 \<le> m" by simp
    then have "(q + 1) * P \<le> m * P"
      by (rule mult_le_mono1)
    moreover have "L + m * P \<le> T"
      using lo \<open>q + 1 \<le> m\<close> by simp
    ultimately show False
      using T f by (simp add: algebra_simps)
  qed
  have qm: "q \<le> m + 1"
  proof (rule ccontr)
    assume "\<not> q \<le> m + 1"
    then have "m + 2 \<le> q" by simp
    then have "(m + 2) * P \<le> q * P"
      by (rule mult_le_mono1)
    then show False
      using T hi L by (simp add: algebra_simps)
  qed
  have a: "f < L \<longrightarrow> m \<noteq> q"
  proof (intro impI notI)
    assume "f < L" and "m = q"
    with q1 lo have "L + q * P \<le> T" by simp
    with T \<open>f < L\<close> show False by simp
  qed
  have b: "L < f \<longrightarrow> m + 1 \<noteq> q"
  proof (intro impI notI)
    assume "L < f" and "m + 1 = q"
    with T have "T = (m + 1) * P + f" by simp
    with hi \<open>L < f\<close> show False by simp
  qed
  have "(L < f \<longrightarrow> m = q) \<and> (f < L \<longrightarrow> m + 1 = q) \<and> (f = L \<longrightarrow> m = q \<or> m + 1 = q)"
    using mq qm a b by auto
  then show ?thesis
    by (simp add: q_def f_def)
qed


lemma ticks_small:
  fixes L T m P :: nat
  assumes "0 < m \<longrightarrow> L + m * P \<le> T" and "T < P"
  shows "m = 0"
  using assms by (cases m) simp_all

text \<open>Without latencies the two loops, and the two handlers, are the same.\<close>

lemma select_lat_zero:
  "wake_lat no_latency s req T (k * period) (Suc k) = wake s req T k"
  "select_lat no_latency rt s req T (k * period) (Suc k) k = select rt s req T k"
proof -
  show w: "wake_lat no_latency s req T (k * period) (Suc k) = wake s req T k"
    by (simp add: wake_lat_def wake_def tick_due_def no_latency_def)
  have "can_proceed_lat no_latency s req T (k * period) (Suc k) c = can_proceed s req T k c" for c
    unfolding can_proceed_lat_def can_proceed_def w
    by (cases c) (simp_all add: tick_due_def no_latency_def)
  then have "can_proceed_lat no_latency s req T (k * period) (Suc k) = can_proceed s req T k"
    by (rule ext)
  then show "select_lat no_latency rt s req T (k * period) (Suc k) k = select rt s req T k"
    by (simp only: select_lat_def select_def)
qed

lemma wait_loop_lat_zero:
  "wait_loop_lat no_latency rt s rw req lg T (k * period) (Suc k) k =
     Some (wait_loop rt s rw req lg T k)"
proof (induction rt s rw req lg T k rule: wait_loop.induct)
  case (1 rt s rw req lg T k)
  note z = select_lat_zero
  show ?case
  proof (cases "select rt s req T k = TickerC")
    case False
    then show ?thesis
      by (simp add: wait_loop_return wait_loop_lat_return z)
  next
    case tick: True
    then have tl: "select_lat no_latency rt s req T (k * period) (Suc k) k = TickerC"
      by (simp add: z)
    have due: "tick_due no_latency (Suc k) = (k + 1) * period"
      by (simp add: tick_due_def no_latency_def)
    have wk: "wake s req T k = (k + 1) * period"
      using select_tick_deadline [OF tick] by (rule wake_tick)
    show ?thesis
    proof (cases "writeErr rw k")
      case (Some e)
      then have "writeErr rw k \<noteq> None" by simp
      from wait_loop_lat_failed [OF tl this, unfolded z(1) due]
        wait_loop_failed [OF tick this] show ?thesis
        by (simp add: tick_events_def no_latency_def)
    next
      case None
      have ot: "on_tick rt rw lg k ((k + 1) * period) = (tick_events rt rw lg k, True)"
        using None by (subst on_tick_eq) simp
      have nxt: "(wake s req T k - lag no_latency) div period + 1 = Suc (k + 1)"
        using period_pos by (simp add: wk no_latency_def)
      have now: "wake s req T k + busy no_latency k = (k + 1) * period"
        by (simp add: wk no_latency_def)
      from "1.IH" [OF tick ot [symmetric] refl]
      have "wait_loop_lat no_latency rt s rw req lg T ((k + 1) * period) (Suc (k + 1)) (k + 1) =
          Some (wait_loop rt s rw req lg T (k + 1))" .
      then show ?thesis
        unfolding wait_loop_lat_tick [OF tl None] z(1) nxt now due
        by (simp add: wait_loop_tick [OF tick None] tick_events_def split: prod.split)
    qed
  qed
qed

lemma slow_lat_zero: "slow_lat no_latency rt s rw req = Some (slow rt s rw req)"
proof -
  obtain p err where pe: "ParseDuration rt (requested req) = (p, err)"
    by (cases "ParseDuration rt (requested req)")
  have "lag no_latency = 0 * period"
    by (simp add: no_latency_def)
  then show ?thesis
    using wait_loop_lat_zero [of rt s rw req "fields_of (logger s) req" "due p" 0]
    by (simp add: slow_lat_unfold [OF pe] slow_unfold [OF pe] split: prod.split)
qed

lemmas eval_lat_defs =
  slow_lat_def wait_loop_lat.simps select_lat_def can_proceed_lat_def wake_lat_def tick_due_def
  sample_lat_def sample_lat_slow_def

section \<open>Runs on the clock with latencies\<close>

text \<open>
  The number of lines written and the instant of return.  A delay of 2 s whose first
  write is blocked for 1.2 s: the handler comes back to its \<^verbatim>\<open>select\<close> at 2.2 s with the
  timer and the second tick both ready, and returns with one line or with two.
\<close>

lemma run_blocked_write:
  "map_option (\<lambda>(s, out). (length (written (events out)), returned out))
     (slow_lat (sample_lat_first 1200000000) (sample_rt_pick 0) sample_srv sample_rw
        (sample_req ''2s'')) = Some (1, 2200000100)
   \<and> map_option (\<lambda>(s, out). (length (written (events out)), returned out))
     (slow_lat (sample_lat_first 1200000000) (sample_rt_pick 1) sample_srv sample_rw
        (sample_req ''2s'')) = Some (2, 2200001100)"
  by (simp add: sample_defs eval_defs eval_lat_defs sample_rt_pick_def sample_lat_first_def)

text \<open>
  A delay of 3.5 s whose first write is blocked for 2.2 s: the tick due at 3 s is
  dropped, and two lines are written.
\<close>

lemma run_dropped_tick:
  "map_option (\<lambda>(s, out). (length (written (events out)), returned out))
     (slow_lat (sample_lat_first 2200000000) (sample_rt_pick 1) sample_srv sample_rw
        (sample_req ''3.5s'')) = Some (2, 3500000000)"
  by (simp add: sample_defs eval_defs eval_lat_defs sample_rt_pick_def sample_lat_first_def)

text \<open>
  Delays of 1 s + 1 ns and of 3 s, with quick writes: the timer is due before the tick
  at that second, whatever the \<^verbatim>\<open>select\<close> would take; no line, and two lines.
\<close>

lemma run_timer_first:
  "map_option (\<lambda>(s, out). (length (written (events out)), returned out))
     (slow_lat (sample_lat_first 1000) (sample_rt_pick 1) sample_srv sample_rw
        (sample_req ''1.000000001s'')) = Some (0, 1000000001)
   \<and> map_option (\<lambda>(s, out). (length (written (events out)), returned out))
     (slow_lat (sample_lat_first 1000) (sample_rt_pick 1) sample_srv sample_rw
        (sample_req ''3s'')) = Some (2, 3000000000)"
  by (simp add: sample_defs eval_defs eval_lat_defs sample_rt_pick_def sample_lat_first_def)

section \<open>Properties\<close>

text \<open>
  C1.  The claim: for every malformed duration string the status is 400 and the handler
  returns without entering the wait loop.  The ticking \<^verbatim>\<open>slow\<close> has no \<^verbatim>\<open>return\<close> after
  \<^verbatim>\<open>rw.WriteHeader(http.StatusBadRequest)\<close>.  At the request \<^verbatim>\<open>/slow/abc\<close> it writes the
  status 400 and then goes on as for a valid request: it logs that the request starts,
  arms a timer of zero duration and a one-second ticker, and enters the loop, which it
  leaves when the \<^verbatim>\<open>select\<close> takes the timer.
\<close>

theorem malformed_enters_wait_loop:
  "snd (slow sample_rt sample_srv sample_rw (sample_req ''abc'')) =
      \<lparr>events =
         [Log ErrorLevel ''failed to parse duration''
            [(''method'', ''GET''), (''url'', ''/slow/abc''),
             (''error'', ''time: invalid duration abc'')],
          WriteHeader 400,
          Log InfoLevel ''starting request'' [(''method'', ''GET''), (''url'', ''/slow/abc'')],
          Logf InfoLevel ''pausing for %s'' 0 [(''method'', ''GET''), (''url'', ''/slow/abc'')],
          NewTimer 0, NewTicker 1000000000,
          Log InfoLevel ''finishing request'' [(''method'', ''GET''), (''url'', ''/slow/abc'')]],
       returned = 0\<rparr>"
  by (simp add: sample_defs eval_defs)

text \<open>
  C2, as amended.  Take the ticking \<^verbatim>\<open>slow\<close> with a duration that parsed, a ticker armed
  less than a tick interval after the timer, and tick cases (write and flush) that each
  take less than a tick interval.  Then the handler returns, and it does so less than
  one tick interval after the first of: the delay elapses, the client cancels the
  request, the server context is cancelled; when no write fails, not before that event.
  So it returns less than a tick interval after a cancellation by the client.  The
  sleep-only \<^verbatim>\<open>slow\<close> looks at no cancellation: it returns when the delay has elapsed.
\<close>

theorem slow_returns_within_a_tick:
  assumes "ParseDuration rt (requested req) = (p, None)"
    and "\<forall>i. busy lat i < period" and "lag lat < period"
  shows "\<exists>out. slow_lat lat rt s rw req = Some (s, out)
     \<and> returned out < deadline s req (due p) + period
     \<and> ((\<forall>i. writeErr rw i = None) \<longrightarrow> deadline s req (due p) \<le> returned out)
     \<and> (\<forall>c. Context req = Some c \<longrightarrow> returned out < c + period)
     \<and> (\<forall>c. ctx s = Some c \<longrightarrow> returned out < c + period)
     \<and> returned out < due p + period
     \<and> returned (snd (slow_sleep rt s' rw req)) = due p"
proof -
  let ?E = "deadline s req (due p)"
  from slow_lat_fast [OF assms(1,2), of s rw] obtain out where
    r: "slow_lat lat rt s rw req = Some (s, out)"
    and d: "(\<forall>i. writeErr rw i = None) \<longrightarrow> max (lag lat) ?E \<le> returned out"
    and e: "returned out < max (lag lat + 1) (?E + period)"
    by (elim exE conjE) blast
  have lt: "returned out < ?E + period"
    using e assms(3) by (auto simp: max_def split: if_splits)
  have "\<forall>c. Context req = Some c \<longrightarrow> ?E \<le> c"
    by (auto simp: deadline_def earliest_def)
  moreover have "\<forall>c. ctx s = Some c \<longrightarrow> ?E \<le> c"
    by (cases "Context req") (auto simp: deadline_def earliest_def)
  moreover have "?E \<le> due p"
    by (rule deadline_le)
  moreover have "returned (snd (slow_sleep rt s' rw req)) = due p"
    by (simp add: slow_sleep_unfold [OF assms(1)])
  ultimately show ?thesis
    using r d lt by (intro exI [of _ out]) (auto simp: less_le_trans)
qed

text \<open>
  A request for \<^verbatim>\<open>10s\<close> that the client cancels at 1.1 s, while the first tick (due at
  1 s + 100 ns) is being handled for 0.2 s: the handler returns at 1.2 s + 100 ns.
\<close>

theorem slow_returns_within_a_tick_witness:
  "map_option (returned \<circ> snd)
     (slow_lat sample_lat sample_rt sample_srv sample_rw
        ((sample_req ''10s'')\<lparr>Context := Some 1100000000\<rparr>)) = Some 1200000100"
  using slow_returns_within_a_tick [of sample_rt "(sample_req ''10s'')\<lparr>Context := Some 1100000000\<rparr>"
      10000000000 sample_lat sample_srv sample_rw]
  by (simp add: sample_defs eval_defs eval_lat_defs)

text \<open>
  The claim as stated fails in two ways.  The sleep-only handler, at a request for \<^verbatim>\<open>10s\<close>
  that the client cancels after one second, is still running one tick interval later.
  The ticking handler, at a request for \<^verbatim>\<open>10s\<close> that the client cancels at 1.5 s while
  the first tick is being handled for 3 s, returns at 4 s + 100 ns, more than one tick
  interval after the cancellation.
\<close>

theorem handler_outlives_cancellation:
  "\<not> returned (snd (slow_sleep sample_rt sample_sleep_srv sample_rw
      ((sample_req ''10s'')\<lparr>Context := Some 1000000000\<rparr>))) \<le> 1000000000 + period
   \<and> map_option (returned \<circ> snd)
     (slow_lat sample_lat_slow sample_rt sample_srv sample_rw
        ((sample_req ''10s'')\<lparr>Context := Some 1500000000\<rparr>)) = Some 4000000100
   \<and> \<not> (4000000100 \<le> 1500000000 + period)"
  by (simp add: sample_defs eval_defs eval_lat_defs)

text \<open>
  C3, as amended.  Take the ticking \<^verbatim>\<open>slow\<close> with a parsed delay \<open>p\<close>, no cancellation, no
  failed write, a ticker armed less than a tick interval after the timer, and tick cases
  that each take less than a tick interval.  The lines written are those of the ticks
  that come due before the timer.  Their number is 0 when the delay is under one second.
  Otherwise it is the whole number of seconds in the delay when the rest of the delay
  is more than the lag of the ticker behind the timer, and one less when the rest is less
  than that lag: so \<open>N - 1\<close> for a delay of a whole number \<open>N \<ge> 1\<close> of seconds, the lag
  being positive.  When the rest equals the lag, the timer and a tick are due together
  and the \<^verbatim>\<open>select\<close> takes either.
\<close>

theorem ticks_before_timer:
  assumes "ParseDuration rt (requested req) = (p, None)"
    and "Context req = None" and "ctx s = None" and "\<forall>i. writeErr rw i = None"
    and "\<forall>i. busy lat i < period" and "lag lat < period"
  shows "\<exists>out. slow_lat lat rt s rw req = Some (s, out)
    \<and> (p < Second \<longrightarrow> length (written (events out)) = 0)
    \<and> (Second \<le> p \<and> int (lag lat) < p mod Second \<longrightarrow>
         int (length (written (events out))) = p div Second)
    \<and> (Second \<le> p \<and> p mod Second < int (lag lat) \<longrightarrow>
         int (length (written (events out))) = p div Second - 1)
    \<and> (Second \<le> p \<and> p mod Second = int (lag lat) \<longrightarrow>
         int (length (written (events out))) = p div Second
       \<or> int (length (written (events out))) = p div Second - 1)"
proof -
  have D: "deadline s req (due p) = nat p"
    using assms(2,3) by (simp add: deadline_def earliest_def due_def)
  from slow_lat_fast [OF assms(1,5), of s rw] assms(4) obtain out where
    r: "slow_lat lat rt s rw req = Some (s, out)"
    and lo: "0 < length (written (events out)) \<longrightarrow>
        tick_due lat (length (written (events out))) \<le> nat p"
    and hi: "nat p \<le> tick_due lat (length (written (events out)) + 1)"
    unfolding D by (elim exE conjE) blast
  define m where "m = length (written (events out))"
  have P: "int period = Second" "0 < Second"
    by (simp_all add: period_def Second_def)
  have lo': "0 < m \<longrightarrow> lag lat + m * period \<le> nat p"
    using lo by (simp add: tick_due_def m_def)
  have hi': "nat p \<le> lag lat + (m + 1) * period"
    using hi by (simp add: tick_due_def m_def)
  have small: "p < Second \<longrightarrow> m = 0"
  proof
    assume "p < Second"
    then have "nat p < period"
      using P by linarith
    with lo' show "m = 0"
      by (rule ticks_small)
  qed
  have big: "Second \<le> p \<longrightarrow>
      (int (lag lat) < p mod Second \<longrightarrow> int m = p div Second)
    \<and> (p mod Second < int (lag lat) \<longrightarrow> int m = p div Second - 1)
    \<and> (p mod Second = int (lag lat) \<longrightarrow> int m = p div Second \<or> int m = p div Second - 1)"
  proof
    assume ge: "Second \<le> p"
    with P have p0: "0 \<le> p" and T: "period \<le> nat p"
      by linarith+
    have "int (nat p div period) = int (nat p) div int period"
      and "int (nat p mod period) = int (nat p) mod int period"
      by (simp_all only: zdiv_int zmod_int)
    with p0 have dv: "p div Second = int (nat p div period)"
      and md: "p mod Second = int (nat p mod period)"
      by (simp_all only: P(1) int_nat_eq if_True)
    from ticks_between [OF assms(6) lo' hi' T]
    show "(int (lag lat) < p mod Second \<longrightarrow> int m = p div Second)
    \<and> (p mod Second < int (lag lat) \<longrightarrow> int m = p div Second - 1)
    \<and> (p mod Second = int (lag lat) \<longrightarrow> int m = p div Second \<or> int m = p div Second - 1)"
      unfolding dv md by (simp only: of_nat_less_iff of_nat_eq_iff) linarith
  qed
  show ?thesis
    using r small big unfolding m_def by (intro exI [of _ out]) blast
qed

text \<open>
  With the ticker 100 ns behind the timer and tick cases of 0.2 s: two lines for a delay
  of two and a half seconds, nine lines for a delay of ten seconds.
\<close>

theorem ticks_before_timer_witness:
  "map_option (length \<circ> written \<circ> events \<circ> snd)
     (slow_lat sample_lat sample_rt sample_srv sample_rw (sample_req ''2500ms'')) = Some 2
   \<and> map_option (length \<circ> written \<circ> events \<circ> snd)
     (slow_lat sample_lat sample_rt sample_srv sample_rw (sample_req ''10s'')) = Some 9"
proof -
  have "map_option (length \<circ> written \<circ> events \<circ> snd)
     (slow_lat sample_lat sample_rt sample_srv sample_rw (sample_req ''2500ms'')) = Some 2"
    using ticks_before_timer [of sample_rt "sample_req ''2500ms''" 2500000000 sample_srv sample_rw
        sample_lat]
    by (auto simp: sample_defs sample_lat_def requested_def Second_def period_def)
  moreover have "map_option (length \<circ> written \<circ> events \<circ> snd)
     (slow_lat sample_lat sample_rt sample_srv sample_rw (sample_req ''10s'')) = Some 9"
    using ticks_before_timer [of sample_rt "sample_req ''10s''" 10000000000 sample_srv sample_rw
        sample_lat]
    by (auto simp: sample_defs sample_lat_def requested_def Second_def period_def)
  ultimately show ?thesis
    by (intro conjI)
qed

text \<open>
  A delay of one second: no line is written, on the clock without latencies when the
  \<^verbatim>\<open>select\<close> takes the timer, and on the clock with the ticker 100 ns behind the timer
  even when the \<^verbatim>\<open>select\<close> would take the ticker; the floor of the delay in seconds is
  1.  A delay of two and a half seconds with tick cases of 3 s: the first tick is still
  being handled when the timer fires, and one line is written; the floor is 2.
\<close>

theorem no_tick_at_one_second:
  "written (events (snd (slow sample_rt sample_srv sample_rw (sample_req ''1s'')))) = []
   \<and> fst (ParseDuration sample_rt (requested (sample_req ''1s''))) div Second = 1
   \<and> map_option (written \<circ> events \<circ> snd)
       (slow_lat sample_lat sample_rt_last sample_srv sample_rw (sample_req ''1s'')) = Some []
   \<and> map_option (length \<circ> written \<circ> events \<circ> snd)
       (slow_lat sample_lat_slow sample_rt sample_srv sample_rw (sample_req ''2500ms'')) = Some 1
   \<and> fst (ParseDuration sample_rt (requested (sample_req ''2500ms''))) div Second = 2"
  by (simp add: sample_defs eval_defs eval_lat_defs)

text \<open>
  C4.  When the path variable \<^verbatim>\<open>duration\<close> is absent or empty, both versions of \<^verbatim>\<open>slow\<close>
  log \<^verbatim>\<open>using default duration\<close> and from there on do exactly what they do for the same
  request with the variable set to \<^verbatim>\<open>10s\<close>: the same events follow, and the handler
  returns at the same instant.  The duration of the timer (of the sleep) is what
  \<^verbatim>\<open>time.ParseDuration\<close> gives for \<^verbatim>\<open>10s\<close>; with Go's, ten seconds.
\<close>

theorem empty_duration_is_10s:
  assumes "Vars req ''duration'' = None \<or> Vars req ''duration'' = Some []"
  shows "slow rt s rw req =
      (s, \<lparr>events =
             Log InfoLevel ''using default duration'' (fields_of (logger s) req) #
             events (snd (slow rt s rw (req\<lparr>Vars := (Vars req)(''duration'' \<mapsto> ''10s'')\<rparr>))),
           returned =
             returned (snd (slow rt s rw (req\<lparr>Vars := (Vars req)(''duration'' \<mapsto> ''10s'')\<rparr>)))\<rparr>)
    \<and> slow_sleep rt s' rw req =
      (s', \<lparr>events =
             Log InfoLevel ''using default duration'' (fields_of (sleep_logger s') req) #
             events (snd (slow_sleep rt s' rw (req\<lparr>Vars := (Vars req)(''duration'' \<mapsto> ''10s'')\<rparr>))),
           returned =
             returned (snd (slow_sleep rt s' rw
               (req\<lparr>Vars := (Vars req)(''duration'' \<mapsto> ''10s'')\<rparr>)))\<rparr>)
    \<and> NewTimer (fst (ParseDuration rt ''10s'')) \<in> set (events (snd (slow rt s rw req)))
    \<and> Sleep (fst (ParseDuration rt ''10s'')) \<in> set (events (snd (slow_sleep rt s' rw req)))
    \<and> (ParseDuration rt ''10s'' = (10 * Second, None) \<longrightarrow>
         NewTimer 10000000000 \<in> set (events (snd (slow rt s rw req)))
       \<and> returned (snd (slow_sleep rt s' rw req)) = 10000000000)"
proof -
  let ?req = "req\<lparr>Vars := (Vars req)(''duration'' \<mapsto> ''10s'')\<rparr>"
  obtain p err where pe: "ParseDuration rt ''10s'' = (p, err)"
    by (cases "ParseDuration rt ''10s''")
  have r1: "ParseDuration rt (requested req) = (p, err)"
    using assms pe by (auto simp: requested_def)
  have r2: "ParseDuration rt (requested ?req) = (p, err)"
    using pe by (simp add: requested_def)
  have f: "fields_of lg0 ?req = fields_of lg0 req" for lg0
    by (simp add: fields_of_def)
  have pre: "preamble lg0 req p err =
      Log InfoLevel ''using default duration'' (fields_of lg0 req) # preamble lg0 ?req p err" for lg0
    using assms by (auto simp: preamble_def f cong: option.case_cong)
  have w: "wait_loop rt s rw ?req lg T k = wait_loop rt s rw req lg T k" for lg T k
    by (rule wait_loop_req) simp
  have a: "slow rt s rw req =
      (s, \<lparr>events =
             Log InfoLevel ''using default duration'' (fields_of (logger s) req) #
             events (snd (slow rt s rw ?req)),
           returned = returned (snd (slow rt s rw ?req))\<rparr>)"
    by (simp add: slow_unfold [OF r1] slow_unfold [OF r2] pre f w)
  have b: "slow_sleep rt s' rw req =
      (s', \<lparr>events =
             Log InfoLevel ''using default duration'' (fields_of (sleep_logger s') req) #
             events (snd (slow_sleep rt s' rw ?req)),
           returned = returned (snd (slow_sleep rt s' rw ?req))\<rparr>)"
    by (simp add: slow_sleep_unfold [OF r1] slow_sleep_unfold [OF r2] pre f)
  have c: "NewTimer (fst (ParseDuration rt ''10s'')) \<in> set (events (snd (slow rt s rw req)))"
    by (simp add: slow_unfold [OF r1] pe)
  have d: "Sleep (fst (ParseDuration rt ''10s'')) \<in> set (events (snd (slow_sleep rt s' rw req)))"
    by (simp add: slow_sleep_unfold [OF r1] pe)
  have e: "ParseDuration rt ''10s'' = (10 * Second, None) \<longrightarrow>
         NewTimer 10000000000 \<in> set (events (snd (slow rt s rw req)))
       \<and> returned (snd (slow_sleep rt s' rw req)) = 10000000000"
    using c by (auto simp: slow_sleep_unfold [OF r1] pe due_def Second_def)
  from a b c d e show ?thesis
    by (intro conjI)
qed

text \<open>A request without the path variable, and the same request for \<^verbatim>\<open>10s\<close>.\<close>

theorem empty_duration_is_10s_witness:
  "events (snd (slow sample_rt sample_srv sample_rw ((sample_req [])\<lparr>Vars := Map.empty\<rparr>))) =
     Log InfoLevel ''using default duration'' [(''method'', ''GET''), (''url'', ''/slow/'')] #
     events (snd (slow sample_rt sample_srv sample_rw
       ((sample_req [])\<lparr>Vars := [''duration'' \<mapsto> ''10s'']\<rparr>)))
   \<and> NewTimer 10000000000 \<in> set (events (snd (slow sample_rt sample_srv sample_rw
       ((sample_req [])\<lparr>Vars := Map.empty\<rparr>))))
   \<and> returned (snd (slow_sleep sample_rt sample_sleep_srv sample_rw
       ((sample_req [])\<lparr>Vars := Map.empty\<rparr>))) = 10000000000"
proof -
  let ?req = "(sample_req [])\<lparr>Vars := Map.empty\<rparr>"
  have absent: "Vars ?req ''duration'' = None \<or> Vars ?req ''duration'' = Some []"
    by simp
  have ten: "ParseDuration sample_rt ''10s'' = (10 * Second, None)"
    by (simp add: sample_defs Second_def)
  have upd: "?req\<lparr>Vars := (Vars ?req)(''duration'' \<mapsto> ''10s'')\<rparr> =
      (sample_req [])\<lparr>Vars := [''duration'' \<mapsto> ''10s'']\<rparr>"
    by simp
  have lg: "fields_of (logger sample_srv) ?req = [(''method'', ''GET''), (''url'', ''/slow/'')]"
    by (simp add: sample_defs fields_of_def)
  note t = empty_duration_is_10s [OF absent, of sample_rt sample_srv sample_rw sample_sleep_srv,
      unfolded upd lg]
  from t have "events (snd (slow sample_rt sample_srv sample_rw ?req)) =
     Log InfoLevel ''using default duration'' [(''method'', ''GET''), (''url'', ''/slow/'')] #
     events (snd (slow sample_rt sample_srv sample_rw
       ((sample_req [])\<lparr>Vars := [''duration'' \<mapsto> ''10s'']\<rparr>)))"
    by (simp only: snd_conv outcome.simps)
  moreover from t ten have
    "NewTimer 10000000000 \<in> set (events (snd (slow sample_rt sample_srv sample_rw ?req)))"
    "returned (snd (slow_sleep sample_rt sample_sleep_srv sample_rw ?req)) = 10000000000"
    by blast+
  ultimately show ?thesis
    by (intro conjI)
qed

text \<open>
  C5.  Whatever the method, the URL (and so the query string), the path variables and
  the state of the request, \<^verbatim>\<open>fail\<close> writes the status 504 Gateway Timeout and does
  nothing else: no body is written, no timer, ticker or sleep is started, and it
  returns at once, leaving the server as it was.
\<close>

theorem fail_always_504:
  "fail s rw req = (s, \<lparr>events = [WriteHeader 504], returned = 0\<rparr>)"
  by (simp add: fail_def StatusGatewayTimeout_def)

text \<open>
  C6, as amended.  The events of the ticking \<^verbatim>\<open>slow\<close> between arming the ticker and its
  deferred log line are those of some number \<open>n\<close> of ticks, one after the other.  Each tick
  calls \<^verbatim>\<open>Write\<close> exactly once, with the line \<^verbatim>\<open>tick: \<close>, the time of the tick and a newline.
  When that write succeeds and the response writer implements \<^verbatim>\<open>http.Flusher\<close>, the next
  call on the response writer is \<^verbatim>\<open>Flush\<close>, with only the log line \<^verbatim>\<open>flush\<close> in between;
  when the writer does not implement it, nothing is flushed, and after a failed write
  the handler logs the error instead.  The body is the sequence of these lines.
\<close>

theorem tick_writes_line_then_flushes:
  assumes "ParseDuration rt (requested req) = (p, err)"
  shows "\<exists>n. events (snd (slow rt s rw req)) =
      preamble (logger s) req p err @ [NewTimer p, NewTicker Second] @
      concat (map (\<lambda>i.
          [Log InfoLevel ''tick'' (fields_of (logger s) req),
           Write (''tick: '' @ fmtTime rt ((i + 1) * period) @ [CHR 0x0A])] @
          (case writeErr rw i of
             Some e \<Rightarrow>
               [Log ErrorLevel ''failed to write tick''
                  (fields_of (logger s) req @ [(''error'', e)])]
           | None \<Rightarrow>
               if flusher rw
               then [Log InfoLevel ''flush'' (fields_of (logger s) req), Flush]
               else []))
        [0..<n]) @
      [Log InfoLevel ''finishing request'' (fields_of (logger s) req)]
    \<and> written (events (snd (slow rt s rw req))) =
      map (\<lambda>i. ''tick: '' @ fmtTime rt ((i + 1) * period) @ [CHR 0x0A]) [0..<n]"
proof -
  from slow_ticks [OF assms, of s rw] obtain n where
    te: "events (snd (slow rt s rw req)) =
      preamble (logger s) req p err @ [NewTimer p, NewTicker Second] @
      concat (map (tick_events rt rw (fields_of (logger s) req)) [0..<n]) @
      [Log InfoLevel ''finishing request'' (fields_of (logger s) req)]"
    by (elim exE conjE)
  then have ev: "events (snd (slow rt s rw req)) =
      preamble (logger s) req p err @ [NewTimer p, NewTicker Second] @
      concat (map (\<lambda>i.
          [Log InfoLevel ''tick'' (fields_of (logger s) req),
           Write (''tick: '' @ fmtTime rt ((i + 1) * period) @ [CHR 0x0A])] @
          (case writeErr rw i of
             Some e \<Rightarrow>
               [Log ErrorLevel ''failed to write tick''
                  (fields_of (logger s) req @ [(''error'', e)])]
           | None \<Rightarrow>
               if flusher rw
               then [Log InfoLevel ''flush'' (fields_of (logger s) req), Flush]
               else []))
        [0..<n]) @
      [Log InfoLevel ''finishing request'' (fields_of (logger s) req)]"
    unfolding tick_events_eq .
  have wr: "written (events (snd (slow rt s rw req))) =
      map (\<lambda>i. ''tick: '' @ fmtTime rt ((i + 1) * period) @ [CHR 0x0A]) [0..<n]"
    unfolding te by (simp add: written_ticks written_Cons tick_line_def)
  show ?thesis
    by (rule exI [of _ n]) (rule conjI [OF ev wr])
qed

text \<open>
  The statement at a request for \<^verbatim>\<open>2500ms\<close>, and the events there: two ticks, each
  written and flushed.
\<close>

theorem tick_writes_line_then_flushes_witness:
  "(\<exists>n. events (snd (slow sample_rt sample_srv sample_rw (sample_req ''2500ms''))) =
      preamble (logger sample_srv) (sample_req ''2500ms'') 2500000000 None @
      [NewTimer 2500000000, NewTicker Second] @
      concat (map (\<lambda>i.
          [Log InfoLevel ''tick'' (fields_of (logger sample_srv) (sample_req ''2500ms'')),
           Write (''tick: '' @ fmtTime sample_rt ((i + 1) * period) @ [CHR 0x0A])] @
          (case writeErr sample_rw i of
             Some e \<Rightarrow>
               [Log ErrorLevel ''failed to write tick''
                  (fields_of (logger sample_srv) (sample_req ''2500ms'') @ [(''error'', e)])]
           | None \<Rightarrow>
               if flusher sample_rw
               then [Log InfoLevel ''flush'' (fields_of (logger sample_srv) (sample_req ''2500ms'')),
                     Flush]
               else []))
        [0..<n]) @
      [Log InfoLevel ''finishing request'' (fields_of (logger sample_srv) (sample_req ''2500ms''))]
    \<and> written (events (snd (slow sample_rt sample_srv sample_rw (sample_req ''2500ms'')))) =
      map (\<lambda>i. ''tick: '' @ fmtTime sample_rt ((i + 1) * period) @ [CHR 0x0A]) [0..<n])
   \<and> events (snd (slow sample_rt sample_srv sample_rw (sample_req ''2500ms''))) =
      [Log InfoLevel ''starting request'' [(''method'', ''GET''), (''url'', ''/slow/2500ms'')],
       Logf InfoLevel ''pausing for %s'' 2500000000
         [(''method'', ''GET''), (''url'', ''/slow/2500ms'')],
       NewTimer 2500000000, NewTicker 1000000000,
       Log InfoLevel ''tick'' [(''method'', ''GET''), (''url'', ''/slow/2500ms'')],
       Write (''tick: T1'' @ [CHR 0x0A]),
       Log InfoLevel ''flush'' [(''method'', ''GET''), (''url'', ''/slow/2500ms'')],
       Flush,
       Log InfoLevel ''tick'' [(''method'', ''GET''), (''url'', ''/slow/2500ms'')],
       Write (''tick: T2'' @ [CHR 0x0A]),
       Log InfoLevel ''flush'' [(''method'', ''GET''), (''url'', ''/slow/2500ms'')],
       Flush,
       Log InfoLevel ''finishing request'' [(''method'', ''GET''), (''url'', ''/slow/2500ms'')]]"
proof (rule conjI)
  show "events (snd (slow sample_rt sample_srv sample_rw (sample_req ''2500ms''))) =
      [Log InfoLevel ''starting request'' [(''method'', ''GET''), (''url'', ''/slow/2500ms'')],
       Logf InfoLevel ''pausing for %s'' 2500000000
         [(''method'', ''GET''), (''url'', ''/slow/2500ms'')],
       NewTimer 2500000000, NewTicker 1000000000,
       Log InfoLevel ''tick'' [(''method'', ''GET''), (''url'', ''/slow/2500ms'')],
       Write (''tick: T1'' @ [CHR 0x0A]),
       Log InfoLevel ''flush'' [(''method'', ''GET''), (''url'', ''/slow/2500ms'')],
       Flush,
       Log InfoLevel ''tick'' [(''method'', ''GET''), (''url'', ''/slow/2500ms'')],
       Write (''tick: T2'' @ [CHR 0x0A]),
       Log InfoLevel ''flush'' [(''method'', ''GET''), (''url'', ''/slow/2500ms'')],
       Flush,
       Log InfoLevel ''finishing request'' [(''method'', ''GET''), (''url'', ''/slow/2500ms'')]]"
    by (simp add: sample_defs eval_defs)
qed (rule tick_writes_line_then_flushes, simp add: sample_defs requested_def)

text \<open>
  A response writer that does not implement \<^verbatim>\<open>http.Flusher\<close>: two lines are written and
  \<^verbatim>\<open>Flush\<close> is never called.
\<close>

theorem no_flush_without_flusher:
  "written (events (snd (slow sample_rt sample_srv (sample_rw\<lparr>flusher := False\<rparr>)
      (sample_req ''2500ms'')))) = [''tick: T1'' @ [CHR 0x0A], ''tick: T2'' @ [CHR 0x0A]]
   \<and> Flush \<notin> set (events (snd (slow sample_rt sample_srv (sample_rw\<lparr>flusher := False\<rparr>)
      (sample_req ''2500ms''))))"
  by (simp add: sample_defs eval_defs)

text \<open>
  C7.  Let the \<open>j\<close>-th write be one that fails.  Then \<^verbatim>\<open>slow\<close> never writes after it: at
  most \<open>j + 1\<close> lines are written.  When the failing write is reached, the handler logs
  \<^verbatim>\<open>failed to write tick\<close> at error level with the error, and returns at the instant of
  that tick: only the deferred log line follows.  The server is left as it was, so any
  other invocation of the handler does what it would have done anyway.
\<close>

theorem write_failure_ends_handler:
  assumes "writeErr rw j = Some e"
  shows "fst (slow rt s rw req) = s
    \<and> slow rt (fst (slow rt s rw req)) rw' req' = slow rt s rw' req'
    \<and> length (written (events (snd (slow rt s rw req)))) \<le> j + 1
    \<and> (length (written (events (snd (slow rt s rw req)))) = j + 1 \<longrightarrow>
         returned (snd (slow rt s rw req)) = (j + 1) * period
       \<and> (\<exists>pre. events (snd (slow rt s rw req)) =
            pre @
            [Write (tick_line rt ((j + 1) * period)),
             Log ErrorLevel ''failed to write tick''
               (fields_of (logger s) req @ [(''error'', e)]),
             Log InfoLevel ''finishing request'' (fields_of (logger s) req)]))"
proof -
  obtain p err where pe: "ParseDuration rt (requested req) = (p, err)"
    by (cases "ParseDuration rt (requested req)")
  have s: "fst (slow rt s rw req) = s"
    by (simp add: slow_unfold [OF pe])
  let ?lg = "fields_of (logger s) req"
  from slow_ticks [OF pe, of s rw] obtain n where
    ev: "events (snd (slow rt s rw req)) =
          preamble (logger s) req p err @ [NewTimer p, NewTicker Second] @
          concat (map (tick_events rt rw ?lg) [0..<n]) @
          [Log InfoLevel ''finishing request'' ?lg]"
    and ok: "\<forall>i. i + 1 < n \<longrightarrow> writeErr rw i = None"
    and ret: "if 0 < n \<and> writeErr rw (n - 1) \<noteq> None
          then returned (snd (slow rt s rw req)) = n * period
          else returned (snd (slow rt s rw req)) = deadline s req (due p)
             \<and> deadline s req (due p) \<le> (n + 1) * period"
    by (elim exE conjE)
  have n: "length (written (events (snd (slow rt s rw req)))) = n"
    unfolding ev by (simp add: written_ticks written_Cons)
  have le: "n \<le> j + 1"
    using ok assms by (metis not_less option.distinct(1))
  have last: "n = j + 1 \<longrightarrow>
      returned (snd (slow rt s rw req)) = (j + 1) * period
    \<and> (\<exists>pre. events (snd (slow rt s rw req)) =
         pre @
         [Write (tick_line rt ((j + 1) * period)),
          Log ErrorLevel ''failed to write tick'' (?lg @ [(''error'', e)]),
          Log InfoLevel ''finishing request'' ?lg])"
  proof
    assume nj: "n = j + 1"
    have te: "tick_events rt rw ?lg j =
        [Log InfoLevel ''tick'' ?lg] @
        [Write (tick_line rt ((j + 1) * period)),
         Log ErrorLevel ''failed to write tick'' (?lg @ [(''error'', e)])]"
      using assms by (simp add: tick_events_def on_tick_def)
    have "events (snd (slow rt s rw req)) =
        (preamble (logger s) req p err @ [NewTimer p, NewTicker Second] @
         concat (map (tick_events rt rw ?lg) [0..<j]) @ [Log InfoLevel ''tick'' ?lg]) @
        [Write (tick_line rt ((j + 1) * period)),
         Log ErrorLevel ''failed to write tick'' (?lg @ [(''error'', e)]),
         Log InfoLevel ''finishing request'' ?lg]" (is "_ = ?pre @ _")
      unfolding ev nj by (simp add: te)
    then have "\<exists>pre. events (snd (slow rt s rw req)) =
         pre @
         [Write (tick_line rt ((j + 1) * period)),
          Log ErrorLevel ''failed to write tick'' (?lg @ [(''error'', e)]),
          Log InfoLevel ''finishing request'' ?lg]"
      by (intro exI [of _ ?pre])
    moreover have "returned (snd (slow rt s rw req)) = (j + 1) * period"
      using ret nj assms by simp
    ultimately show "returned (snd (slow rt s rw req)) = (j + 1) * period
    \<and> (\<exists>pre. events (snd (slow rt s rw req)) =
         pre @
         [Write (tick_line rt ((j + 1) * period)),
          Log ErrorLevel ''failed to write tick'' (?lg @ [(''error'', e)]),
          Log InfoLevel ''finishing request'' ?lg])"
      by simp
  qed
  show ?thesis
    unfolding n using s le last by simp
qed

text \<open>A request for \<^verbatim>\<open>10s\<close> whose second write fails: it returns at two seconds.\<close>

theorem write_failure_ends_handler_witness:
  "fst (slow sample_rt sample_srv
      (sample_rw\<lparr>writeErr := (\<lambda>n. if n = 1 then Some ''write: broken pipe'' else None)\<rparr>)
      (sample_req ''10s'')) = sample_srv
   \<and> length (written (events (snd (slow sample_rt sample_srv
      (sample_rw\<lparr>writeErr := (\<lambda>n. if n = 1 then Some ''write: broken pipe'' else None)\<rparr>)
      (sample_req ''10s''))))) = 2
   \<and> returned (snd (slow sample_rt sample_srv
      (sample_rw\<lparr>writeErr := (\<lambda>n. if n = 1 then Some ''write: broken pipe'' else None)\<rparr>)
      (sample_req ''10s''))) = 2000000000"
  using write_failure_ends_handler [of
      "sample_rw\<lparr>writeErr := (\<lambda>n. if n = 1 then Some ''write: broken pipe'' else None)\<rparr>"
      1 "''write: broken pipe''" sample_rt sample_srv "sample_req ''10s''"]
  by (simp add: sample_defs eval_defs)

text \<open>
  C9.  When \<^verbatim>\<open>time.ParseDuration\<close> fails, and returns the zero duration with its error as
  Go's does, both versions of \<^verbatim>\<open>slow\<close> write the status 400 and fall through.  The ticking
  one arms a timer of duration zero, which is ready before the first tick: the handler
  returns at instant 0 and writes no line.  The sleep-only one sleeps for zero and returns
  at instant 0.
\<close>

theorem malformed_waits_zero:
  assumes "Vars req ''duration'' = Some d" and "d \<noteq> []"
    and "ParseDuration rt d = (0, Some e)"
  shows "snd (slow rt s rw req) =
      \<lparr>events =
         [Log ErrorLevel ''failed to parse duration''
            (fields_of (logger s) req @ [(''error'', e)]),
          WriteHeader 400,
          Log InfoLevel ''starting request'' (fields_of (logger s) req),
          Logf InfoLevel ''pausing for %s'' 0 (fields_of (logger s) req),
          NewTimer 0, NewTicker Second,
          Log InfoLevel ''finishing request'' (fields_of (logger s) req)],
       returned = 0\<rparr>
    \<and> snd (slow_sleep rt s' rw req) =
      \<lparr>events =
         [Log ErrorLevel ''failed to parse duration''
            (fields_of (sleep_logger s') req @ [(''error'', e)]),
          WriteHeader 400,
          Log InfoLevel ''starting request'' (fields_of (sleep_logger s') req),
          Logf InfoLevel ''pausing for %s'' 0 (fields_of (sleep_logger s') req),
          Sleep 0,
          Log InfoLevel ''finishing request'' (fields_of (sleep_logger s') req)],
       returned = 0\<rparr>"
proof -
  have pe: "ParseDuration rt (requested req) = (0, Some e)"
    using assms by (simp add: requested_def)
  show ?thesis
    using assms(1,2)
    by (simp add: slow_unfold [OF pe] slow_sleep_unfold [OF pe] preamble_def due_def
        wait_loop_zero StatusBadRequest_def)
qed

text \<open>The request \<^verbatim>\<open>/slow/abc\<close>.\<close>

theorem malformed_waits_zero_witness:
  "written (events (snd (slow sample_rt sample_srv sample_rw (sample_req ''abc'')))) = []
   \<and> returned (snd (slow sample_rt sample_srv sample_rw (sample_req ''abc''))) = 0
   \<and> returned (snd (slow_sleep sample_rt sample_sleep_srv sample_rw (sample_req ''abc''))) = 0"
  using malformed_waits_zero [of "sample_req ''abc''" "''abc''" sample_rt
      "''time: invalid duration abc''" sample_srv sample_rw sample_sleep_srv]
  by (simp add: sample_defs written_Cons)

text \<open>
  C10.  A duration string that parses, without error, to a negative duration is taken as
  valid by both versions of \<^verbatim>\<open>slow\<close>: no status is written, the timer (the sleep) gets the
  negative duration and is over at once, the handler returns at instant 0 and no line is
  written.
\<close>

theorem negative_duration_is_valid:
  assumes "Vars req ''duration'' = Some d" and "d \<noteq> []"
    and "ParseDuration rt d = (p, None)" and "p < 0"
  shows "snd (slow rt s rw req) =
      \<lparr>events =
         [Log InfoLevel ''starting request'' (fields_of (logger s) req),
          Logf InfoLevel ''pausing for %s'' p (fields_of (logger s) req),
          NewTimer p, NewTicker Second,
          Log InfoLevel ''finishing request'' (fields_of (logger s) req)],
       returned = 0\<rparr>
    \<and> snd (slow_sleep rt s' rw req) =
      \<lparr>events =
         [Log InfoLevel ''starting request'' (fields_of (sleep_logger s') req),
          Logf InfoLevel ''pausing for %s'' p (fields_of (sleep_logger s') req),
          Sleep p,
          Log InfoLevel ''finishing request'' (fields_of (sleep_logger s') req)],
       returned = 0\<rparr>"
proof -
  have pe: "ParseDuration rt (requested req) = (p, None)"
    using assms by (simp add: requested_def)
  have "due p = 0"
    using assms(4) by (simp add: due_def)
  then show ?thesis
    using assms(1,2)
    by (simp add: slow_unfold [OF pe] slow_sleep_unfold [OF pe] preamble_def wait_loop_zero)
qed

text \<open>The request \<^verbatim>\<open>/slow/-5s\<close>.\<close>

theorem negative_duration_is_valid_witness:
  "snd (slow sample_rt sample_srv sample_rw (sample_req ''-5s'')) =
      \<lparr>events =
         [Log InfoLevel ''starting request'' [(''method'', ''GET''), (''url'', ''/slow/-5s'')],
          Logf InfoLevel ''pausing for %s'' (- 5000000000)
            [(''method'', ''GET''), (''url'', ''/slow/-5s'')],
          NewTimer (- 5000000000), NewTicker 1000000000,
          Log InfoLevel ''finishing request'' [(''method'', ''GET''), (''url'', ''/slow/-5s'')]],
       returned = 0\<rparr>
   \<and> returned (snd (slow_sleep sample_rt sample_sleep_srv sample_rw (sample_req ''-5s''))) = 0"
  using negative_duration_is_valid [of "sample_req ''-5s''" "''-5s''" sample_rt "- 5000000000"
      sample_srv sample_rw sample_sleep_srv]
  by (simp add: sample_defs fields_of_def Second_def)

end
